theory Spec2Isabelle
  imports Main "HOL-Library.AList" "HOL-Library.Char_ord" "HOL-Library.List_Lexorder"
    "HOL-Library.Product_Lexorder"
begin

section \<open>Characters and strings\<close>

text \<open>
  A Python \<open>str\<close> is modelled as a \<open>string\<close>, a list of 8-bit characters: the code points
  0 to 255. The character classes below are those of CPython on exactly these code points
  (\<open>str.isupper\<close>, \<open>str.isspace\<close>, \<open>str.isdigit\<close>, \<open>str.isalnum\<close>, \<open>str.lower\<close>);
  code points above 255 are outside the model.
\<close>

definition code_point :: "char \<Rightarrow> nat" where
  "code_point c = of_char c"

definition in_range :: "nat \<Rightarrow> nat \<Rightarrow> char \<Rightarrow> bool" where
  "in_range lo hi c = (lo \<le> code_point c \<and> code_point c \<le> hi)"

definition isupper :: "char \<Rightarrow> bool" where
  "isupper c = (in_range 65 90 c \<or> in_range 192 214 c \<or> in_range 216 222 c)"

definition isspace :: "char \<Rightarrow> bool" where
  "isspace c = (in_range 9 13 c \<or> in_range 28 32 c \<or> code_point c = 133 \<or> code_point c = 160)"

definition isdigit_chr :: "char \<Rightarrow> bool" where
  "isdigit_chr c = (in_range 48 57 c \<or> in_range 178 179 c \<or> code_point c = 185)"

definition isalnum :: "char \<Rightarrow> bool" where
  "isalnum c = (in_range 48 57 c \<or> in_range 65 90 c \<or> in_range 97 122 c \<or>
     code_point c = 170 \<or> in_range 178 179 c \<or> code_point c = 181 \<or> in_range 185 186 c \<or>
     in_range 188 190 c \<or> in_range 192 214 c \<or> in_range 216 246 c \<or> in_range 248 255 c)"

definition lower_chr :: "char \<Rightarrow> char" where
  "lower_chr c = (if isupper c then char_of (code_point c + 32) else c)"

definition lower :: "string \<Rightarrow> string" where
  "lower s = map lower_chr s"

text \<open>\<open>s.isdigit()\<close>: false on the empty string.\<close>

definition isdigit :: "string \<Rightarrow> bool" where
  "isdigit s = (s \<noteq> [] \<and> list_all isdigit_chr s)"

text \<open>\<open>s.strip()\<close> removes the whitespace at both ends.\<close>

definition strip :: "string \<Rightarrow> string" where
  "strip s = rev (dropWhile isspace (rev (dropWhile isspace s)))"

text \<open>\<open>s.find(c)\<close>: the index of the first occurrence, \<open>None\<close> for Python's \<open>-1\<close>.\<close>

fun str_find :: "char \<Rightarrow> string \<Rightarrow> nat option" where
  "str_find c [] = None"
| "str_find c (x # xs) =
     (if x = c then Some 0 else (case str_find c xs of None \<Rightarrow> None | Some i \<Rightarrow> Some (Suc i)))"

text \<open>\<open>sep.join(parts)\<close>.\<close>

fun join :: "string \<Rightarrow> string list \<Rightarrow> string" where
  "join sep [] = []"
| "join sep [x] = x"
| "join sep (x # y # ys) = x @ sep @ join sep (y # ys)"

section \<open>Errors and the data model\<close>

datatype error =
    EmptyError
  | MissingPrefixError
  | EmptyPrefixError
  | InvalidTagFormatError
  | EmptyTagComponentError
  | InvalidCharacterError
  | DuplicateKeyError
  | NumericKeyError
  | UnterminatedQuoteError
  | InvalidEscapeSequenceError
  | PrefixMismatchError (expected: string) (actual: string)
  | WhitespaceInInputError

datatype ParseState =
    EXPECTING_KEY
  | IN_KEY
  | EXPECTING_VALUE
  | IN_UNQUOTED_VALUE
  | IN_QUOTED_VALUE
  | IN_QUOTED_VALUE_ESCAPE
  | EXPECTING_SEMI_OR_END

text \<open>
  A Python \<open>dict\<close> from \<open>str\<close> to \<open>str\<close> is an association list in insertion order with
  distinct keys: \<open>d.get(k)\<close> is \<open>map_of d k\<close>, \<open>d[k] = v\<close> is \<open>AList.update k v d\<close>
  (in place when the key is there, appended otherwise), \<open>d.pop(k, None)\<close> is
  \<open>AList.delete k d\<close>.
\<close>

type_synonym dict = "(string \<times> string) list"

record TaggedUrn =
  prefix :: string
  tags :: dict

text \<open>\<open>TaggedUrn.__init__\<close>: the dict comprehension inserts the items in order.\<close>

definition lower_keys :: "dict \<Rightarrow> dict" where
  "lower_keys d = fold (\<lambda>(k, v) acc. AList.update (lower k) v acc) d []"

definition TaggedUrn_init :: "string \<Rightarrow> dict \<Rightarrow> TaggedUrn" where
  "TaggedUrn_init p d = \<lparr>prefix = lower p, tags = lower_keys d\<rparr>"

definition empty_urn :: "string \<Rightarrow> TaggedUrn" where
  "empty_urn p = TaggedUrn_init p []"

text \<open>\<open>dict.__eq__\<close>: the same number of items, and every item of the one is in the other.\<close>

definition dict_eq :: "dict \<Rightarrow> dict \<Rightarrow> bool" where
  "dict_eq a b = (length a = length b \<and> list_all (\<lambda>(k, v). map_of b k = Some v) a)"

text \<open>\<open>TaggedUrn.__eq__\<close>.\<close>

definition urn_eq :: "TaggedUrn \<Rightarrow> TaggedUrn \<Rightarrow> bool" where
  "urn_eq a b = (prefix a = prefix b \<and> dict_eq (tags a) (tags b))"

section \<open>Matching\<close>

definition values_match :: "string option \<Rightarrow> string option \<Rightarrow> bool" where
  "values_match inst patt =
     (if patt = None \<or> patt = Some ''?'' then True
      else if inst = Some ''?'' then True
      else if patt = Some ''!'' then
        (if inst = None then True else if inst = Some ''!'' then True else False)
      else if inst = Some ''!'' then
        (if patt = Some ''*'' then False else False)
      else if patt = Some ''*'' then
        (if inst = None then False else True)
      else if inst = None then False
      else if inst = Some ''*'' then True
      else inst = patt)"

text \<open>
  \<open>set(a.keys()) | set(b.keys())\<close>: the loops over it only compute a conjunction, so the
  order of the iteration, which Python leaves open, does not matter.
\<close>

definition all_keys :: "dict \<Rightarrow> dict \<Rightarrow> string list" where
  "all_keys a b = remdups (map fst a @ map fst b)"

definition check_match :: "dict \<Rightarrow> string \<Rightarrow> dict \<Rightarrow> string \<Rightarrow> error + bool" where
  "check_match instance_tags instance_prefix pattern_tags pattern_prefix =
     (if instance_prefix \<noteq> pattern_prefix
      then Inl (PrefixMismatchError instance_prefix pattern_prefix)
      else Inr (list_all
        (\<lambda>key. values_match (map_of instance_tags key) (map_of pattern_tags key))
        (all_keys instance_tags pattern_tags)))"

definition conforms_to :: "TaggedUrn \<Rightarrow> TaggedUrn \<Rightarrow> error + bool" where
  "conforms_to self pattern = check_match (tags self) (prefix self) (tags pattern) (prefix pattern)"

definition accepts :: "TaggedUrn \<Rightarrow> TaggedUrn \<Rightarrow> error + bool" where
  "accepts self inst = check_match (tags inst) (prefix inst) (tags self) (prefix self)"

section \<open>The parser\<close>

definition is_valid_key_char :: "char \<Rightarrow> bool" where
  "is_valid_key_char c = (isalnum c \<or> c \<in> set ''_-/:.'')"

definition is_valid_unquoted_value_char :: "char \<Rightarrow> bool" where
  "is_valid_unquoted_value_char c = (isalnum c \<or> c \<in> set ''_-/:.*?!'')"

definition is_purely_numeric :: "string \<Rightarrow> bool" where
  "is_purely_numeric s = (s \<noteq> [] \<and> isdigit s)"

text \<open>\<open>_finish_tag\<close>: the checks in the order of the source, then the insertion.\<close>

definition finish_tag :: "dict \<Rightarrow> string \<Rightarrow> string \<Rightarrow> error + dict" where
  "finish_tag d key val =
     (if key = [] then Inl EmptyTagComponentError
      else if val = [] then Inl EmptyTagComponentError
      else if map_of d key \<noteq> None then Inl DuplicateKeyError
      else if is_purely_numeric key then Inl NumericKeyError
      else Inr (AList.update key val d))"

text \<open>
  The variables of the loop of \<open>from_string\<close>. The position \<open>pos\<close> only feeds the error
  messages, which are not modelled: an error is its class.
\<close>

record parser =
  state :: ParseState
  current_key :: string
  current_value :: string
  parsed_tags :: dict

definition tag_done :: "error + dict \<Rightarrow> error + parser" where
  "tag_done r = (case r of
       Inl e \<Rightarrow> Inl e
     | Inr d \<Rightarrow> Inr \<lparr>state = EXPECTING_KEY, current_key = [], current_value = [],
         parsed_tags = d\<rparr>)"

text \<open>One iteration of the \<open>while\<close> loop, on the character \<open>c\<close>.\<close>

definition step :: "parser \<Rightarrow> char \<Rightarrow> error + parser" where
  "step p c = (case state p of
       EXPECTING_KEY \<Rightarrow>
         (if c = CHR '';'' then Inr p
          else if is_valid_key_char c
            then Inr (p\<lparr>current_key := current_key p @ [lower_chr c], state := IN_KEY\<rparr>)
          else Inl InvalidCharacterError)
     | IN_KEY \<Rightarrow>
         (if c = CHR ''='' then
            (if current_key p = [] then Inl EmptyTagComponentError
             else Inr (p\<lparr>state := EXPECTING_VALUE\<rparr>))
          else if c = CHR '';'' then
            (if current_key p = [] then Inl EmptyTagComponentError
             else tag_done (finish_tag (parsed_tags p) (current_key p) ''*''))
          else if is_valid_key_char c
            then Inr (p\<lparr>current_key := current_key p @ [lower_chr c]\<rparr>)
          else Inl InvalidCharacterError)
     | EXPECTING_VALUE \<Rightarrow>
         (if c = CHR 0x22 then Inr (p\<lparr>state := IN_QUOTED_VALUE\<rparr>)
          else if c = CHR '';'' then Inl EmptyTagComponentError
          else if is_valid_unquoted_value_char c
            then Inr (p\<lparr>current_value := current_value p @ [lower_chr c],
              state := IN_UNQUOTED_VALUE\<rparr>)
          else Inl InvalidCharacterError)
     | IN_UNQUOTED_VALUE \<Rightarrow>
         (if c = CHR '';''
            then tag_done (finish_tag (parsed_tags p) (current_key p) (current_value p))
          else if is_valid_unquoted_value_char c
            then Inr (p\<lparr>current_value := current_value p @ [lower_chr c]\<rparr>)
          else Inl InvalidCharacterError)
     | IN_QUOTED_VALUE \<Rightarrow>
         (if c = CHR 0x22 then Inr (p\<lparr>state := EXPECTING_SEMI_OR_END\<rparr>)
          else if c = CHR 0x5C then Inr (p\<lparr>state := IN_QUOTED_VALUE_ESCAPE\<rparr>)
          else Inr (p\<lparr>current_value := current_value p @ [c]\<rparr>))
     | IN_QUOTED_VALUE_ESCAPE \<Rightarrow>
         (if c = CHR 0x22 \<or> c = CHR 0x5C
            then Inr (p\<lparr>current_value := current_value p @ [c], state := IN_QUOTED_VALUE\<rparr>)
          else Inl InvalidEscapeSequenceError)
     | EXPECTING_SEMI_OR_END \<Rightarrow>
         (if c = CHR '';''
            then tag_done (finish_tag (parsed_tags p) (current_key p) (current_value p))
          else Inl InvalidCharacterError))"

text \<open>The \<open>while pos < len(chars)\<close> loop: it stops at the first error.\<close>

fun parse_loop :: "parser \<Rightarrow> string \<Rightarrow> error + parser" where
  "parse_loop p [] = Inr p"
| "parse_loop p (c # cs) = (case step p c of Inl e \<Rightarrow> Inl e | Inr p' \<Rightarrow> parse_loop p' cs)"

text \<open>The handling of the end of the input, after the loop.\<close>

definition parse_end :: "parser \<Rightarrow> error + dict" where
  "parse_end p = (case state p of
       IN_UNQUOTED_VALUE \<Rightarrow> finish_tag (parsed_tags p) (current_key p) (current_value p)
     | EXPECTING_SEMI_OR_END \<Rightarrow> finish_tag (parsed_tags p) (current_key p) (current_value p)
     | EXPECTING_KEY \<Rightarrow> Inr (parsed_tags p)
     | IN_QUOTED_VALUE \<Rightarrow> Inl UnterminatedQuoteError
     | IN_QUOTED_VALUE_ESCAPE \<Rightarrow> Inl UnterminatedQuoteError
     | IN_KEY \<Rightarrow>
         (if current_key p = [] then Inl EmptyTagComponentError
          else finish_tag (parsed_tags p) (current_key p) ''*'')
     | EXPECTING_VALUE \<Rightarrow> Inl EmptyTagComponentError)"

definition parser_start :: parser where
  "parser_start = \<lparr>state = EXPECTING_KEY, current_key = [], current_value = [],
     parsed_tags = []\<rparr>"

definition parse_tags :: "string \<Rightarrow> error + dict" where
  "parse_tags tags_part = (case parse_loop parser_start tags_part of
       Inl e \<Rightarrow> Inl e
     | Inr p \<Rightarrow> parse_end p)"

definition from_string :: "string \<Rightarrow> error + TaggedUrn" where
  "from_string s =
     (if s \<noteq> strip s then Inl WhitespaceInInputError
      else if s = [] then Inl EmptyError
      else (case str_find (CHR '':'') s of
          None \<Rightarrow> Inl MissingPrefixError
        | Some colon_pos \<Rightarrow>
            if colon_pos = 0 then Inl EmptyPrefixError
            else let pre = lower (take colon_pos s); tags_part = drop (colon_pos + 1) s in
              if tags_part = [] \<or> tags_part = '';'' then Inr (TaggedUrn_init pre [])
              else (case parse_tags tags_part of
                  Inl e \<Rightarrow> Inl e
                | Inr d \<Rightarrow> Inr (TaggedUrn_init pre d))))"

section \<open>The serializer\<close>

definition needs_quoting :: "string \<Rightarrow> bool" where
  "needs_quoting v = list_ex (\<lambda>c. c \<in> {CHR '';'', CHR ''='', CHR 0x22, CHR 0x5C, CHR '' ''}
     \<or> isupper c) v"

text \<open>The loop of \<open>_quote_value\<close>, between the two quotes.\<close>

primrec quote_body :: "string \<Rightarrow> string" where
  "quote_body [] = []"
| "quote_body (c # cs) =
     (if c \<in> {CHR 0x22, CHR 0x5C} then CHR 0x5C # c # quote_body cs else c # quote_body cs)"

definition quote_value :: "string \<Rightarrow> string" where
  "quote_value v = CHR 0x22 # quote_body v @ [CHR 0x22]"

definition tag_str :: "string \<times> string \<Rightarrow> string" where
  "tag_str kv = (case kv of (k, v) \<Rightarrow>
     if v = ''*'' then k
     else if v = ''?'' then k @ ''=?''
     else if v = ''!'' then k @ ''=!''
     else if needs_quoting v then k @ ''='' @ quote_value v
     else k @ ''='' @ v)"

definition tags_to_string :: "TaggedUrn \<Rightarrow> string" where
  "tags_to_string self = join '';'' (map tag_str (sort (tags self)))"

definition to_string :: "TaggedUrn \<Rightarrow> string" where
  "to_string self = prefix self @ '':'' @ tags_to_string self"

section \<open>Operations on tags\<close>



definition with_tag :: "TaggedUrn \<Rightarrow> string \<Rightarrow> string \<Rightarrow> error + TaggedUrn" where
  "with_tag self key val =
     (if val = [] then Inl EmptyTagComponentError
      else Inr (TaggedUrn_init (prefix self) (AList.update (lower key) val (tags self))))"






definition dict_update :: "dict \<Rightarrow> dict \<Rightarrow> dict" where
  "dict_update d other = fold (\<lambda>(k, v) acc. AList.update k v acc) other d"

definition merge :: "TaggedUrn \<Rightarrow> TaggedUrn \<Rightarrow> error + TaggedUrn" where
  "merge self other =
     (if prefix self \<noteq> prefix other then Inl (PrefixMismatchError (prefix self) (prefix other))
      else Inr (TaggedUrn_init (prefix self) (dict_update (tags self) (tags other))))"

section \<open>Specificity and compatibility\<close>

definition score :: "string \<Rightarrow> int" where
  "score v = (if v = ''?'' then 0 else if v = ''!'' then 1 else if v = ''*'' then 2 else 3)"

definition specificity :: "TaggedUrn \<Rightarrow> int" where
  "specificity self = fold (\<lambda>v sc. sc + score v) (map snd (tags self)) 0"

definition values_compatible :: "string option \<Rightarrow> string option \<Rightarrow> bool" where
  "values_compatible v1 v2 =
     (if v1 = None \<or> v2 = None then True
      else if v1 = Some ''?'' \<or> v2 = Some ''?'' then True
      else if v1 = Some ''!'' \<and> v2 = Some ''!'' then True
      else if v1 = Some ''!'' \<or> v2 = Some ''!'' then False
      else if v1 = Some ''*'' \<and> v2 = Some ''*'' then True
      else if v1 = Some ''*'' \<or> v2 = Some ''*'' then True
      else v1 = v2)"

definition is_compatible_with :: "TaggedUrn \<Rightarrow> TaggedUrn \<Rightarrow> error + bool" where
  "is_compatible_with self other =
     (if prefix self \<noteq> prefix other then Inl (PrefixMismatchError (prefix self) (prefix other))
      else Inr (list_all
        (\<lambda>key. values_compatible (map_of (tags self) key) (map_of (tags other) key))
        (all_keys (tags self) (tags other))))"

definition is_more_specific_than :: "TaggedUrn \<Rightarrow> TaggedUrn \<Rightarrow> error + bool" where
  "is_more_specific_than self other =
     (if prefix self \<noteq> prefix other then Inl (PrefixMismatchError (prefix self) (prefix other))
      else (case is_compatible_with self other of
          Inl e \<Rightarrow> Inl e
        | Inr ok \<Rightarrow> if \<not> ok then Inr False else Inr (specificity self > specificity other)))"

section \<open>UrnMatcher\<close>

text \<open>
  The loop of \<open>find_best_match\<close> with its two variables \<open>best\<close> and \<open>best_specificity\<close>;
  an error of \<open>conforms_to\<close> leaves the loop.
\<close>

fun find_best_loop ::
  "TaggedUrn list \<Rightarrow> TaggedUrn \<Rightarrow> TaggedUrn option \<Rightarrow> int \<Rightarrow> error + TaggedUrn option" where
  "find_best_loop [] request best best_specificity = Inr best"
| "find_best_loop (urn # urns) request best best_specificity =
     (case conforms_to urn request of
        Inl e \<Rightarrow> Inl e
      | Inr ok \<Rightarrow>
          if ok \<and> (best = None \<or> specificity urn > best_specificity)
          then find_best_loop urns request (Some urn) (specificity urn)
          else find_best_loop urns request best best_specificity)"

definition find_best_match :: "TaggedUrn list \<Rightarrow> TaggedUrn \<Rightarrow> error + TaggedUrn option" where
  "find_best_match urns request = find_best_loop urns request None 0"

section \<open>The builder\<close>

record TaggedUrnBuilder =
  builder_prefix :: string
  builder_tags :: dict

definition builder_init :: "string \<Rightarrow> TaggedUrnBuilder" where
  "builder_init p = \<lparr>builder_prefix = lower p, builder_tags = []\<rparr>"

definition builder_tag :: "TaggedUrnBuilder \<Rightarrow> string \<Rightarrow> string \<Rightarrow> error + TaggedUrnBuilder" where
  "builder_tag b key val =
     (if val = [] then Inl EmptyTagComponentError
      else Inr (b\<lparr>builder_tags := AList.update (lower key) val (builder_tags b)\<rparr>))"

definition solo_tag :: "TaggedUrnBuilder \<Rightarrow> string \<Rightarrow> TaggedUrnBuilder" where
  "solo_tag b key = b\<lparr>builder_tags := AList.update (lower key) ''*'' (builder_tags b)\<rparr>"

definition build :: "TaggedUrnBuilder \<Rightarrow> error + TaggedUrn" where
  "build b = (if builder_tags b = [] then Inl EmptyError
     else Inr (TaggedUrn_init (builder_prefix b) (builder_tags b)))"

definition build_allow_empty :: "TaggedUrnBuilder \<Rightarrow> TaggedUrn" where
  "build_allow_empty b = TaggedUrn_init (builder_prefix b) (builder_tags b)"

section \<open>The matching table of the specification\<close>

text \<open>
  The five states a tag can be in on one side of a match, and the table of the
  specification over them, written from its words; \<open>values_match\<close> above is the code.
\<close>

datatype tag_value = Absent | Unspecified | MustNotHave | MustHaveAny | Exact string

definition value_kind :: "string option \<Rightarrow> tag_value" where
  "value_kind x = (case x of
       None \<Rightarrow> Absent
     | Some v \<Rightarrow>
         if v = ''?'' then Unspecified
         else if v = ''!'' then MustNotHave
         else if v = ''*'' then MustHaveAny
         else Exact v)"

fun spec_matches :: "tag_value \<Rightarrow> tag_value \<Rightarrow> bool" where
  "spec_matches Absent Absent = True"
| "spec_matches Absent Unspecified = True"
| "spec_matches Absent MustNotHave = True"
| "spec_matches Absent MustHaveAny = False"
| "spec_matches Absent (Exact w) = False"
| "spec_matches Unspecified Absent = True"
| "spec_matches Unspecified Unspecified = True"
| "spec_matches Unspecified MustNotHave = True"
| "spec_matches Unspecified MustHaveAny = True"
| "spec_matches Unspecified (Exact w) = True"
| "spec_matches MustNotHave Absent = True"
| "spec_matches MustNotHave Unspecified = True"
| "spec_matches MustNotHave MustNotHave = True"
| "spec_matches MustNotHave MustHaveAny = False"
| "spec_matches MustNotHave (Exact w) = False"
| "spec_matches MustHaveAny Absent = True"
| "spec_matches MustHaveAny Unspecified = True"
| "spec_matches MustHaveAny MustNotHave = False"
| "spec_matches MustHaveAny MustHaveAny = True"
| "spec_matches MustHaveAny (Exact w) = True"
| "spec_matches (Exact v) Absent = True"
| "spec_matches (Exact v) Unspecified = True"
| "spec_matches (Exact v) MustNotHave = False"
| "spec_matches (Exact v) MustHaveAny = True"
| "spec_matches (Exact v) (Exact w) = (v = w)"

text \<open>The keys of a dict.\<close>

definition keys :: "dict \<Rightarrow> string set" where
  "keys d = fst ` set d"

section \<open>Instances with exact values\<close>

text \<open>
  An exact value is one that is none of the three markers. \<open>common_value\<close> chooses, for
  the values two patterns give a key, a value of an instance (or none) that both may match,
  and \<open>common_instance\<close> makes the instance of these choices.
\<close>

definition is_exact_value :: "string \<Rightarrow> bool" where
  "is_exact_value v = (v \<noteq> ''*'' \<and> v \<noteq> ''?'' \<and> v \<noteq> ''!'')"

definition all_exact :: "dict \<Rightarrow> bool" where
  "all_exact d = list_all (\<lambda>kv. is_exact_value (snd kv)) d"

text \<open>A definite value is neither \<open>*\<close> nor \<open>?\<close>: it is an exact value or \<open>!\<close>.\<close>

definition is_definite_value :: "string \<Rightarrow> bool" where
  "is_definite_value v = (v \<noteq> ''*'' \<and> v \<noteq> ''?'')"

definition all_definite :: "dict \<Rightarrow> bool" where
  "all_definite d = list_all (\<lambda>kv. is_definite_value (snd kv)) d"

definition common_value :: "string option \<Rightarrow> string option \<Rightarrow> string option" where
  "common_value v1 v2 =
     (case v1 of
        None \<Rightarrow> (case v2 of None \<Rightarrow> None
                   | Some w \<Rightarrow> if is_exact_value w then Some w
                       else if w = ''*'' then Some ''a'' else None)
      | Some v \<Rightarrow> if is_exact_value v then Some v
          else (case v2 of None \<Rightarrow> (if v = ''*'' then Some ''a'' else None)
                 | Some w \<Rightarrow> if is_exact_value w then Some w
                     else if v = ''*'' \<or> w = ''*'' then Some ''a'' else None))"

definition common_instance :: "TaggedUrn \<Rightarrow> TaggedUrn \<Rightarrow> TaggedUrn" where
  "common_instance a b = \<lparr>prefix = prefix a,
     tags = List.map_filter
       (\<lambda>k. map_option (Pair k) (common_value (map_of (tags a) k) (map_of (tags b) k)))
       (all_keys (tags a) (tags b))\<rparr>"

section \<open>Parser states by their fields\<close>


section \<open>Well-formed TaggedUrns\<close>





section \<open>What the parser keeps true\<close>



section \<open>Matching: the table and the prefix check\<close>

lemma values_match_table:
  "values_match inst patt = spec_matches (value_kind inst) (value_kind patt)"
  by (cases inst; cases patt) (simp_all add: values_match_def value_kind_def)

lemma set_all_keys: "set (all_keys a b) = keys a \<union> keys b"
  by (simp add: all_keys_def keys_def)

lemma check_match_same_prefix:
  "check_match it p pt p =
     Inr (\<forall>key \<in> keys it \<union> keys pt. values_match (map_of it key) (map_of pt key))"
  by (simp add: check_match_def list_all_iff set_all_keys)

text \<open>
  C2. For two TaggedUrns with equal prefixes, \<open>conforms_to\<close> of the instance against the
  pattern, and \<open>accepts\<close> of the pattern on the instance, return the conjunction over the
  keys of either mapping of the specification's table, applied to the state of the key in
  the instance and in the pattern.
\<close>

theorem conforms_to_is_table_conjunction:
  assumes "prefix inst = prefix patt"
  shows "conforms_to inst patt =
           Inr (\<forall>key \<in> keys (tags inst) \<union> keys (tags patt).
             spec_matches (value_kind (map_of (tags inst) key))
               (value_kind (map_of (tags patt) key)))
         \<and> accepts patt inst = conforms_to inst patt"
  using assms
  by (simp add: conforms_to_def accepts_def check_match_same_prefix values_match_table)

theorem conforms_to_is_table_conjunction_witness:
  "prefix \<lparr>prefix = ''cap'', tags = [(''op'', ''x''), (''ext'', ''!'')]\<rparr>
     = prefix \<lparr>prefix = ''cap'', tags = [(''op'', ''*'')]\<rparr>
   \<and> conforms_to \<lparr>prefix = ''cap'', tags = [(''op'', ''x''), (''ext'', ''!'')]\<rparr>
       \<lparr>prefix = ''cap'', tags = [(''op'', ''*'')]\<rparr> = Inr True
   \<and> accepts \<lparr>prefix = ''cap'', tags = [(''op'', ''*'')]\<rparr>
       \<lparr>prefix = ''cap'', tags = [(''op'', ''x''), (''ext'', ''!'')]\<rparr> = Inr True"
  using conforms_to_is_table_conjunction
    [of "\<lparr>prefix = ''cap'', tags = [(''op'', ''x''), (''ext'', ''!'')]\<rparr>"
        "\<lparr>prefix = ''cap'', tags = [(''op'', ''*'')]\<rparr>"]
  by (simp add: keys_def value_kind_def)

text \<open>
  C7. When the prefixes of two TaggedUrns differ, \<open>conforms_to\<close>, \<open>accepts\<close>,
  \<open>is_compatible_with\<close>, \<open>is_more_specific_than\<close> and \<open>merge\<close> fail with
  \<open>PrefixMismatchError\<close> carrying both prefixes, and so return no boolean;
  \<open>conforms_to\<close> reports the prefix of the instance as expected and that of the pattern
  as actual. The texts \<open>cap:op=x\<close> and \<open>other:op=x\<close> parse, and \<open>conforms_to\<close> on the
  results fails with expected \<open>cap\<close> and actual \<open>other\<close>.
\<close>

theorem prefix_mismatch_raises:
  "(prefix a \<noteq> prefix b \<longrightarrow>
      conforms_to a b = Inl (PrefixMismatchError (prefix a) (prefix b))
    \<and> accepts b a = Inl (PrefixMismatchError (prefix a) (prefix b))
    \<and> is_compatible_with a b = Inl (PrefixMismatchError (prefix a) (prefix b))
    \<and> is_more_specific_than a b = Inl (PrefixMismatchError (prefix a) (prefix b))
    \<and> merge a b = Inl (PrefixMismatchError (prefix a) (prefix b)))
   \<and> (\<exists>x y. from_string ''cap:op=x'' = Inr x \<and> from_string ''other:op=x'' = Inr y
        \<and> conforms_to x y = Inl (PrefixMismatchError ''cap'' ''other''))"
proof (intro conjI impI)
  assume "prefix a \<noteq> prefix b"
  then show "conforms_to a b = Inl (PrefixMismatchError (prefix a) (prefix b))"
    and "accepts b a = Inl (PrefixMismatchError (prefix a) (prefix b))"
    and "is_compatible_with a b = Inl (PrefixMismatchError (prefix a) (prefix b))"
    and "is_more_specific_than a b = Inl (PrefixMismatchError (prefix a) (prefix b))"
    and "merge a b = Inl (PrefixMismatchError (prefix a) (prefix b))"
    by (simp_all add: conforms_to_def accepts_def check_match_def is_compatible_with_def
        is_more_specific_than_def merge_def)
next
  have x: "from_string ''cap:op=x'' = Inr \<lparr>prefix = ''cap'', tags = [(''op'', ''x'')]\<rparr>"
    by code_simp
  have y: "from_string ''other:op=x'' = Inr \<lparr>prefix = ''other'', tags = [(''op'', ''x'')]\<rparr>"
    by code_simp
  show "\<exists>x y. from_string ''cap:op=x'' = Inr x \<and> from_string ''other:op=x'' = Inr y
        \<and> conforms_to x y = Inl (PrefixMismatchError ''cap'' ''other'')"
    unfolding x y by (simp add: conforms_to_def check_match_def)
qed

theorem prefix_mismatch_raises_witness:
  "prefix \<lparr>prefix = ''cap'', tags = []\<rparr> \<noteq> prefix \<lparr>prefix = ''other'', tags = []\<rparr>
   \<and> conforms_to \<lparr>prefix = ''cap'', tags = []\<rparr> \<lparr>prefix = ''other'', tags = []\<rparr>
       = Inl (PrefixMismatchError ''cap'' ''other'')
   \<and> merge \<lparr>prefix = ''cap'', tags = []\<rparr> \<lparr>prefix = ''other'', tags = []\<rparr>
       = Inl (PrefixMismatchError ''cap'' ''other'')"
  using prefix_mismatch_raises [of "\<lparr>prefix = ''cap'', tags = []\<rparr>" "\<lparr>prefix = ''other'', tags = []\<rparr>"]
  by simp

section \<open>Characters, and the constructor\<close>







lemma map_of_fold_update:
  "map_of (fold (\<lambda>(k, v) acc. AList.update (f k) v acc) d acc0)
     = map_of acc0 ++ map_of (rev (map (\<lambda>(k, v). (f k, v)) d))"
  by (induction d arbitrary: acc0) (auto simp: update_conv' map_add_def fun_eq_iff split: option.splits)

lemma keys_fold_update:
  "keys (fold (\<lambda>(k, v) acc. AList.update (f k) v acc) d acc0) = keys acc0 \<union> f ` keys d"
  unfolding keys_def
proof (induction d arbitrary: acc0)
  case Nil
  show ?case by simp
next
  case (Cons a d)
  obtain k v where a: "a = (k, v)" by (cases a)
  show ?case by (simp add: a Cons.IH dom_update)
qed

lemma keys_Nil: "keys [] = {}"
  by (simp add: keys_def)

lemma distinct_fold_update:
  "distinct (map fst acc0) \<Longrightarrow>
   distinct (map fst (fold (\<lambda>(k, v) acc. AList.update (f k) v acc) d acc0))"
  by (induction d arbitrary: acc0) (auto simp: distinct_update)

text \<open>
  C9. The constructor is a total function with no error result: it stores the lowercased
  prefix and the lowercased keys, with distinct keys, and for a key that several input
  keys lowercase to, the value of the last of them. So an empty prefix, a purely numeric
  key and an empty value are stored as they are, and two keys that differ only in case
  give one entry with the later value. \<open>TaggedUrn.empty\<close> is the constructor on no tags.
\<close>

theorem constructor_total_no_validation:
  "prefix (TaggedUrn_init p d) = lower p
   \<and> keys (tags (TaggedUrn_init p d)) = lower ` keys d
   \<and> distinct (map fst (tags (TaggedUrn_init p d)))
   \<and> map_of (tags (TaggedUrn_init p d)) = map_of (rev (map (\<lambda>(k, v). (lower k, v)) d))
   \<and> empty_urn p = \<lparr>prefix = lower p, tags = []\<rparr>
   \<and> TaggedUrn_init [] [] = \<lparr>prefix = [], tags = []\<rparr>
   \<and> TaggedUrn_init ''cap'' [(''123'', [])] = \<lparr>prefix = ''cap'', tags = [(''123'', [])]\<rparr>
   \<and> TaggedUrn_init ''cap'' [(''Key'', ''a''), (''KEY'', ''b'')]
       = \<lparr>prefix = ''cap'', tags = [(''key'', ''b'')]\<rparr>"
proof -
  have 1: "TaggedUrn_init [] [] = \<lparr>prefix = [], tags = []\<rparr>" by code_simp
  have 2: "TaggedUrn_init ''cap'' [(''123'', [])] = \<lparr>prefix = ''cap'', tags = [(''123'', [])]\<rparr>"
    by code_simp
  have 3: "TaggedUrn_init ''cap'' [(''Key'', ''a''), (''KEY'', ''b'')]
       = \<lparr>prefix = ''cap'', tags = [(''key'', ''b'')]\<rparr>" by code_simp
  show ?thesis
    unfolding 1 2 3
    by (simp add: TaggedUrn_init_def lower_keys_def map_of_fold_update keys_fold_update
        distinct_fold_update empty_urn_def keys_Nil)
qed


section \<open>Keys as given and keys lowercased\<close>








section \<open>The best match\<close>

lemma conforms_same_prefix:
  "prefix u = prefix r \<Longrightarrow> \<exists>b. conforms_to u r = Inr b"
  by (simp add: conforms_to_def check_match_def)

lemma find_skip_second:
  "(\<not> Q b \<Longrightarrow> \<not> Q x) \<Longrightarrow> List.find Q (b # x # cs) = List.find Q (b # cs)"
  by (cases "Q b") simp_all

lemma find_skip_first: "\<not> Q b \<Longrightarrow> List.find Q (b # xs) = List.find Q xs"
  by simp

lemma find_max_drop_second:
  fixes f :: "'a \<Rightarrow> int"
  assumes le: "f x \<le> f b"
  shows "List.find (\<lambda>u. \<forall>v \<in> set (b # x # cs). f v \<le> f u) (b # x # cs)
       = List.find (\<lambda>u. \<forall>v \<in> set (b # cs). f v \<le> f u) (b # cs)"
proof -
  let ?Q = "\<lambda>u. \<forall>v \<in> set (b # cs). f v \<le> f u"
  have eq: "(\<lambda>u. \<forall>v \<in> set (b # x # cs). f v \<le> f u) = ?Q"
  proof (rule ext)
    fix u
    show "(\<forall>v \<in> set (b # x # cs). f v \<le> f u) = ?Q u"
      using le by (simp only: list.set ball_simps ball_Un) linarith
  qed
  have nx: "\<not> ?Q x" if "\<not> ?Q b"
  proof
    assume q: "?Q x"
    then have "f b \<le> f x" by simp
    with le have "f x = f b" by simp
    with q have "?Q b" by simp
    with that show False by simp
  qed
  show ?thesis
    unfolding eq by (rule find_skip_second) (rule nx)
qed

lemma find_max_drop_first:
  fixes f :: "'a \<Rightarrow> int"
  assumes lt: "f b < f x"
  shows "List.find (\<lambda>u. \<forall>v \<in> set (b # x # cs). f v \<le> f u) (b # x # cs)
       = List.find (\<lambda>u. \<forall>v \<in> set (x # cs). f v \<le> f u) (x # cs)"
proof -
  let ?Q = "\<lambda>u. \<forall>v \<in> set (x # cs). f v \<le> f u"
  have eq: "(\<lambda>u. \<forall>v \<in> set (b # x # cs). f v \<le> f u) = ?Q"
  proof (rule ext)
    fix u
    show "(\<forall>v \<in> set (b # x # cs). f v \<le> f u) = ?Q u"
      using lt by (simp only: list.set ball_simps ball_Un) linarith
  qed
  have nb: "\<not> ?Q b" using lt by simp
  show ?thesis
    unfolding eq by (rule find_skip_first) (rule nb)
qed


lemma find_best_loop_some:
  assumes "\<forall>u \<in> set urns. prefix u = prefix request"
  shows "find_best_loop urns request (Some b) (specificity b) =
    Inr (List.find
      (\<lambda>u. \<forall>v \<in> set (b # filter (\<lambda>u. conforms_to u request = Inr True) urns).
         specificity v \<le> specificity u)
      (b # filter (\<lambda>u. conforms_to u request = Inr True) urns))"
  using assms
proof (induction urns arbitrary: b)
  case Nil
  show ?case by simp
next
  case (Cons urn urns)
  from Cons.prems have p: "prefix urn = prefix request"
    and rest: "\<forall>u \<in> set urns. prefix u = prefix request"
    by simp_all
  from conforms_same_prefix [OF p] obtain ok where ok: "conforms_to urn request = Inr ok" by blast
  let ?cs = "filter (\<lambda>u. conforms_to u request = Inr True) urns"
  show ?case
  proof (cases ok)
    case False
    then have f: "filter (\<lambda>u. conforms_to u request = Inr True) (urn # urns) = ?cs"
      using ok by simp
    have "find_best_loop (urn # urns) request (Some b) (specificity b)
        = find_best_loop urns request (Some b) (specificity b)"
      using ok False by simp
    then show ?thesis unfolding f using Cons.IH [OF rest, of b] by simp
  next
    case True
    then have f: "filter (\<lambda>u. conforms_to u request = Inr True) (urn # urns) = urn # ?cs"
      using ok by simp
    show ?thesis
    proof (cases "specificity urn > specificity b")
      case gt: True
      have "find_best_loop (urn # urns) request (Some b) (specificity b)
          = find_best_loop urns request (Some urn) (specificity urn)"
        using ok True gt by simp
      then show ?thesis
        unfolding f using Cons.IH [OF rest, of urn] find_max_drop_first [of specificity b urn ?cs, OF gt]
        by simp
    next
      case le: False
      then have le': "specificity urn \<le> specificity b" by simp
      have "find_best_loop (urn # urns) request (Some b) (specificity b)
          = find_best_loop urns request (Some b) (specificity b)"
        using ok True le by simp
      then show ?thesis
        unfolding f using Cons.IH [OF rest, of b] find_max_drop_second [of specificity urn b ?cs, OF le']
        by simp
    qed
  qed
qed

text \<open>
  C5. When every candidate has the prefix of the request, \<open>find_best_match\<close> returns
  the first candidate, in the order of the input, among those that conform to the request,
  whose specificity is at least that of every conforming candidate: nothing when no
  candidate conforms, and the earliest one when several have the greatest specificity.
\<close>

theorem find_best_match_first_most_specific:
  assumes "\<forall>u \<in> set urns. prefix u = prefix request"
  shows "find_best_match urns request =
    Inr (List.find
      (\<lambda>u. \<forall>v \<in> set (filter (\<lambda>u. conforms_to u request = Inr True) urns).
         specificity v \<le> specificity u)
      (filter (\<lambda>u. conforms_to u request = Inr True) urns))"
  using assms
proof (induction urns)
  case Nil
  show ?case by (simp add: find_best_match_def)
next
  case (Cons urn urns)
  from Cons.prems have p: "prefix urn = prefix request"
    and rest: "\<forall>u \<in> set urns. prefix u = prefix request"
    by simp_all
  from conforms_same_prefix [OF p] obtain ok where ok: "conforms_to urn request = Inr ok" by blast
  show ?case
  proof (cases ok)
    case True
    then have f: "filter (\<lambda>u. conforms_to u request = Inr True) (urn # urns)
        = urn # filter (\<lambda>u. conforms_to u request = Inr True) urns"
      using ok by simp
    have "find_best_match (urn # urns) request
        = find_best_loop urns request (Some urn) (specificity urn)"
      using ok True by (simp add: find_best_match_def)
    then show ?thesis
      unfolding f using find_best_loop_some [OF rest, of urn] by simp
  next
    case False
    then have f: "filter (\<lambda>u. conforms_to u request = Inr True) (urn # urns)
        = filter (\<lambda>u. conforms_to u request = Inr True) urns"
      using ok by simp
    have "find_best_match (urn # urns) request = find_best_match urns request"
      using ok False by (simp add: find_best_match_def)
    then show ?thesis
      unfolding f using Cons.IH [OF rest] by simp
  qed
qed


theorem find_best_match_first_most_specific_witness:
  "find_best_match
     [\<lparr>prefix = ''cap'', tags = [(''op'', ''*'')]\<rparr>,
      \<lparr>prefix = ''cap'', tags = [(''op'', ''generate''), (''ext'', ''pdf'')]\<rparr>,
      \<lparr>prefix = ''cap'', tags = [(''op'', ''other'')]\<rparr>,
      \<lparr>prefix = ''cap'', tags = [(''op'', ''generate''), (''fmt'', ''a'')]\<rparr>]
     \<lparr>prefix = ''cap'', tags = [(''op'', ''generate'')]\<rparr>
   = Inr (Some \<lparr>prefix = ''cap'', tags = [(''op'', ''generate''), (''ext'', ''pdf'')]\<rparr>)"
proof -
  let ?urns = "[\<lparr>prefix = ''cap'', tags = [(''op'', ''*'')]\<rparr>,
      \<lparr>prefix = ''cap'', tags = [(''op'', ''generate''), (''ext'', ''pdf'')]\<rparr>,
      \<lparr>prefix = ''cap'', tags = [(''op'', ''other'')]\<rparr>,
      \<lparr>prefix = ''cap'', tags = [(''op'', ''generate''), (''fmt'', ''a'')]\<rparr>]"
  let ?req = "\<lparr>prefix = ''cap'', tags = [(''op'', ''generate'')]\<rparr>"
  have h: "\<forall>u \<in> set ?urns. prefix u = prefix ?req" by simp
  show ?thesis
    using find_best_match_first_most_specific [OF h]
    by (simp add: conforms_to_def check_match_def all_keys_def values_match_def
        specificity_def score_def)
qed

section \<open>Compatibility\<close>
lemma values_compatible_sym: "values_compatible v1 v2 = values_compatible v2 v1"
  by (auto simp: values_compatible_def)

lemma exact_a: "is_exact_value ''a''"
  by (simp add: is_exact_value_def)

lemma common_value_exact: "common_value v1 v2 = Some x \<Longrightarrow> is_exact_value x"
  by (auto simp: common_value_def exact_a split: option.splits if_splits)

lemma common_value_matches:
  "values_compatible v1 v2 \<Longrightarrow>
   values_match (common_value v1 v2) v1 \<and> values_match (common_value v1 v2) v2"
  by (cases v1; cases v2)
     (auto simp: values_compatible_def values_match_def common_value_def is_exact_value_def
       split: if_splits)

lemma match_both_compatible:
  assumes "values_match x v1" "values_match x v2"
    and "x = None \<or> (\<exists>v. x = Some v \<and> is_definite_value v)"
  shows "values_compatible v1 v2"
  using assms
  by (cases v1; cases v2; cases x)
     (auto simp: values_compatible_def values_match_def is_definite_value_def split: if_splits)

lemma all_exact_definite: "all_exact d \<Longrightarrow> all_definite d"
  by (simp add: all_exact_def all_definite_def list_all_iff is_exact_value_def
      is_definite_value_def)

lemma map_of_chosen:
  "map_of (List.map_filter (\<lambda>k. map_option (Pair k) (f k)) ks) k
     = (if k \<in> set ks then f k else None)"
proof (induction ks)
  case Nil
  show ?case by (simp add: map_filter_simps)
next
  case (Cons x ks)
  show ?case
    by (cases "f x") (auto simp: map_filter_simps Cons.IH)
qed

lemma keys_chosen: "keys (List.map_filter (\<lambda>k. map_option (Pair k) (f k)) ks) \<subseteq> set ks"
proof (induction ks)
  case Nil
  show ?case by (simp add: map_filter_simps keys_def)
next
  case (Cons x ks)
  then show ?case
    by (cases "f x") (auto simp: map_filter_simps keys_def)
qed

lemma distinct_chosen:
  fixes f :: "string \<Rightarrow> string option"
  shows "distinct ks \<Longrightarrow>
    distinct (map fst (List.map_filter (\<lambda>k. map_option (Pair k) (f k)) ks))"
proof (induction ks)
  case Nil
  show ?case by (simp add: map_filter_simps)
next
  case (Cons x ks)
  have "x \<notin> keys (List.map_filter (\<lambda>k. map_option (Pair k) (f k)) ks)"
    using keys_chosen [of f ks] Cons.prems by auto
  then show ?case
    using Cons by (cases "f x") (auto simp: map_filter_simps keys_def)
qed

lemma all_exact_chosen:
  "(\<And>k x. f k = Some x \<Longrightarrow> is_exact_value x) \<Longrightarrow>
   all_exact (List.map_filter (\<lambda>k. map_option (Pair k) (f k)) ks)"
proof (induction ks)
  case Nil
  show ?case by (simp add: map_filter_simps all_exact_def)
next
  case (Cons x ks)
  then show ?case
    by (cases "f x") (auto simp: map_filter_simps all_exact_def)
qed

lemma all_definite_lookup:
  "all_definite d \<Longrightarrow> map_of d k = None \<or> (\<exists>v. map_of d k = Some v \<and> is_definite_value v)"
  by (cases "map_of d k") (auto simp: all_definite_def list_all_iff dest!: map_of_SomeD)

lemma values_match_no_pattern: "values_match x None"
  by (simp add: values_match_def)

lemma is_compatible_same_prefix:
  "prefix a = prefix b \<Longrightarrow> is_compatible_with a b =
     Inr (\<forall>key \<in> keys (tags a) \<union> keys (tags b).
       values_compatible (map_of (tags a) key) (map_of (tags b) key))"
  by (simp add: is_compatible_with_def list_all_iff set_all_keys)

lemma accepts_same_prefix:
  "prefix i = prefix a \<Longrightarrow> accepts a i =
     Inr (\<forall>key. values_match (map_of (tags i) key) (map_of (tags a) key))"
proof -
  have "(\<forall>key \<in> keys (tags i) \<union> keys (tags a).
           values_match (map_of (tags i) key) (map_of (tags a) key))
      = (\<forall>key. values_match (map_of (tags i) key) (map_of (tags a) key))"
  proof (intro iffI allI ballI)
    fix key
    assume h: "\<forall>key \<in> keys (tags i) \<union> keys (tags a).
           values_match (map_of (tags i) key) (map_of (tags a) key)"
    show "values_match (map_of (tags i) key) (map_of (tags a) key)"
    proof (cases "key \<in> keys (tags a)")
      case True
      with h show ?thesis by simp
    next
      case False
      then have "map_of (tags a) key = None" by (simp add: keys_def map_of_eq_None_iff)
      then show ?thesis by (simp add: values_match_no_pattern)
    qed
  qed simp
  then show "prefix i = prefix a \<Longrightarrow> ?thesis"
    by (simp add: accepts_def check_match_same_prefix)
qed

text \<open>
  C3, as amended. For two TaggedUrns with the same prefix, \<open>is_compatible_with\<close> is
  symmetric, and it is true if and only if some instance with that prefix, none of whose
  tag values is \<open>*\<close> or \<open>?\<close>, is accepted by both; such an instance can then be taken
  with exact values only.
\<close>

theorem compatible_iff_common_definite_instance:
  assumes p: "prefix a = prefix b"
  shows "is_compatible_with a b = is_compatible_with b a
    \<and> is_compatible_with a b =
        Inr (\<exists>i. prefix i = prefix a \<and> distinct (map fst (tags i)) \<and> all_definite (tags i)
               \<and> accepts a i = Inr True \<and> accepts b i = Inr True)
    \<and> is_compatible_with a b =
        Inr (\<exists>i. prefix i = prefix a \<and> distinct (map fst (tags i)) \<and> all_exact (tags i)
               \<and> accepts a i = Inr True \<and> accepts b i = Inr True)"
proof -
  let ?compat = "\<forall>key \<in> keys (tags a) \<union> keys (tags b).
       values_compatible (map_of (tags a) key) (map_of (tags b) key)"
  let ?exd = "\<exists>i. prefix i = prefix a \<and> distinct (map fst (tags i)) \<and> all_definite (tags i)
               \<and> accepts a i = Inr True \<and> accepts b i = Inr True"
  let ?exe = "\<exists>i. prefix i = prefix a \<and> distinct (map fst (tags i)) \<and> all_exact (tags i)
               \<and> accepts a i = Inr True \<and> accepts b i = Inr True"
  have sym: "is_compatible_with a b = is_compatible_with b a"
    using p
    by (simp add: is_compatible_same_prefix values_compatible_sym [of "map_of (tags a) _"] Un_commute)
  have ce: ?exe if c: ?compat
  proof -
    let ?i = "common_instance a b"
    let ?f = "\<lambda>k. common_value (map_of (tags a) k) (map_of (tags b) k)"
    have pi: "prefix ?i = prefix a" by (simp add: common_instance_def)
    have look: "map_of (tags ?i) k = (if k \<in> keys (tags a) \<union> keys (tags b) then ?f k else None)" for k
      by (simp add: common_instance_def map_of_chosen set_all_keys)
    have m: "values_match (map_of (tags ?i) k) (map_of (tags a) k)
           \<and> values_match (map_of (tags ?i) k) (map_of (tags b) k)" for k
    proof (cases "k \<in> keys (tags a) \<union> keys (tags b)")
      case True
      with c have "values_compatible (map_of (tags a) k) (map_of (tags b) k)" by blast
      from common_value_matches [OF this] show ?thesis using True by (simp add: look)
    next
      case False
      then have "map_of (tags a) k = None" "map_of (tags b) k = None"
        by (simp_all add: keys_def map_of_eq_None_iff)
      then show ?thesis by (simp add: values_match_no_pattern)
    qed
    have "distinct (map fst (tags ?i))"
      by (simp add: common_instance_def distinct_chosen all_keys_def)
    moreover have "all_exact (tags ?i)"
      unfolding common_instance_def
      by (simp add: all_exact_chosen common_value_exact)
    moreover have "accepts a ?i = Inr True"
      using m by (simp add: accepts_same_prefix [OF pi])
    moreover have "accepts b ?i = Inr True"
      using m p by (simp add: accepts_same_prefix pi)
    ultimately show ?exe using pi by blast
  qed
  have ed: ?exd if ?exe
    using that all_exact_definite by blast
  have dc: ?compat if ?exd
  proof -
    from that obtain i where pi: "prefix i = prefix a" and ex: "all_definite (tags i)"
      and ma: "accepts a i = Inr True" and mb: "accepts b i = Inr True" by blast
    from ma pi have 1: "values_match (map_of (tags i) k) (map_of (tags a) k)" for k
      by (simp add: accepts_same_prefix)
    from mb pi p have 2: "values_match (map_of (tags i) k) (map_of (tags b) k)" for k
      by (simp add: accepts_same_prefix)
    show ?compat
    proof
      fix key
      show "values_compatible (map_of (tags a) key) (map_of (tags b) key)"
        using match_both_compatible [OF 1 [of key] 2 [of key] all_definite_lookup [OF ex]] .
    qed
  qed
  have "?compat = ?exd" using ce ed dc by blast
  moreover have "?compat = ?exe" using ce ed dc by blast
  ultimately show ?thesis
    using p sym by (simp add: is_compatible_same_prefix)
qed

theorem compatible_iff_common_definite_instance_witness:
  "(\<exists>i. prefix i = ''cap'' \<and> distinct (map fst (tags i)) \<and> all_exact (tags i)
      \<and> accepts \<lparr>prefix = ''cap'', tags = [(''k'', ''x''), (''m'', ''*'')]\<rparr> i = Inr True
      \<and> accepts \<lparr>prefix = ''cap'', tags = [(''k'', ''*''), (''n'', ''!'')]\<rparr> i = Inr True)
   \<and> is_compatible_with \<lparr>prefix = ''cap'', tags = [(''k'', ''*''), (''n'', ''!'')]\<rparr>
        \<lparr>prefix = ''cap'', tags = [(''k'', ''x''), (''m'', ''*'')]\<rparr> = Inr True"
proof -
  let ?a = "\<lparr>prefix = ''cap'', tags = [(''k'', ''x''), (''m'', ''*'')]\<rparr>"
  let ?b = "\<lparr>prefix = ''cap'', tags = [(''k'', ''*''), (''n'', ''!'')]\<rparr>"
  have p: "prefix ?a = prefix ?b" by simp
  have e: "is_compatible_with ?a ?b = Inr True"
    by (simp add: is_compatible_with_def all_keys_def values_compatible_def)
  note c = compatible_iff_common_definite_instance [OF p]
  from c have s: "is_compatible_with ?a ?b = is_compatible_with ?b ?a" by (rule conjunct1)
  from c have x: "is_compatible_with ?a ?b =
        Inr (\<exists>i. prefix i = prefix ?a \<and> distinct (map fst (tags i)) \<and> all_exact (tags i)
               \<and> accepts ?a i = Inr True \<and> accepts ?b i = Inr True)"
    by (rule conjunct2 [THEN conjunct2])
  from x have "\<exists>i. prefix i = prefix ?a \<and> distinct (map fst (tags i)) \<and> all_exact (tags i)
               \<and> accepts ?a i = Inr True \<and> accepts ?b i = Inr True"
    unfolding e by (simp only: sum.inject simp_thms)
  moreover have "is_compatible_with ?b ?a = Inr True"
    using s unfolding e by (rule sym)
  ultimately show ?thesis by simp
qed

text \<open>
  C3 as stated fails: an instance with the value \<open>?\<close>, and one with the value \<open>*\<close>, is
  accepted by every pattern that gives the key an exact value, so the patterns \<open>cap:k=x\<close>
  and \<open>cap:k=y\<close>, which are not compatible, both accept the instances \<open>cap:k=?\<close> and
  \<open>cap:k\<close>.
\<close>

theorem compatible_iff_common_instance_counterexample:
  "\<not> (is_compatible_with \<lparr>prefix = ''cap'', tags = [(''k'', ''x'')]\<rparr>
         \<lparr>prefix = ''cap'', tags = [(''k'', ''y'')]\<rparr>
       = Inr (\<exists>i. prefix i = ''cap''
           \<and> accepts \<lparr>prefix = ''cap'', tags = [(''k'', ''x'')]\<rparr> i = Inr True
           \<and> accepts \<lparr>prefix = ''cap'', tags = [(''k'', ''y'')]\<rparr> i = Inr True))
   \<and> accepts \<lparr>prefix = ''cap'', tags = [(''k'', ''x'')]\<rparr>
        \<lparr>prefix = ''cap'', tags = [(''k'', ''*'')]\<rparr> = Inr True
   \<and> accepts \<lparr>prefix = ''cap'', tags = [(''k'', ''y'')]\<rparr>
        \<lparr>prefix = ''cap'', tags = [(''k'', ''*'')]\<rparr> = Inr True"
proof -
  let ?a = "\<lparr>prefix = ''cap'', tags = [(''k'', ''x'')]\<rparr>"
  let ?b = "\<lparr>prefix = ''cap'', tags = [(''k'', ''y'')]\<rparr>"
  let ?i = "\<lparr>prefix = ''cap'', tags = [(''k'', ''?'')]\<rparr>"
  let ?j = "\<lparr>prefix = ''cap'', tags = [(''k'', ''*'')]\<rparr>"
  have n: "is_compatible_with ?a ?b = Inr False"
    by (simp add: is_compatible_with_def all_keys_def values_compatible_def)
  have "accepts ?a ?i = Inr True" and "accepts ?b ?i = Inr True"
    by (simp_all add: accepts_def check_match_def all_keys_def values_match_def)
  then have "\<exists>i. prefix i = ''cap'' \<and> accepts ?a i = Inr True \<and> accepts ?b i = Inr True"
    by (intro exI [of _ ?i]) simp
  with n have 1: "\<not> (is_compatible_with ?a ?b
       = Inr (\<exists>i. prefix i = ''cap'' \<and> accepts ?a i = Inr True \<and> accepts ?b i = Inr True))"
    by simp
  have 2: "accepts ?a ?j = Inr True" and 3: "accepts ?b ?j = Inr True"
    by (simp_all add: accepts_def check_match_def all_keys_def values_match_def)
  from 1 2 3 show ?thesis by (intro conjI)
qed

section \<open>The serializer: the canonical form\<close>

lemma join_alt:
  "join sep xs = (case xs of [] \<Rightarrow> [] | x # ys \<Rightarrow> x @ concat (map (\<lambda>y. sep @ y) ys))"
  by (induction sep xs rule: join.induct) simp_all

lemma quote_body_concat:
  "quote_body v = concat (map (\<lambda>c. if c = CHR 0x22 \<or> c = CHR 0x5C then [CHR 0x5C, c] else [c]) v)"
  by (induction v) simp_all

lemma needs_quoting_iff:
  "needs_quoting v = (\<exists>c \<in> set v. c \<in> {CHR '';'', CHR ''='', CHR 0x22, CHR 0x5C, CHR '' ''}
     \<or> isupper c)"
  by (simp add: needs_quoting_def list_ex_iff)

lemma distinct_keys_imp_distinct: "distinct (map fst xs) \<Longrightarrow> distinct xs"
  by (simp add: distinct_map)

lemma fst_mono_pair: "(x :: string \<times> string) \<le> y \<Longrightarrow> fst x \<le> fst y"
  by (auto simp: less_eq_prod_def)

lemma sorted_keys_of_sorted:
  "sorted (xs :: dict) \<Longrightarrow> sorted (map fst xs)"
  by (induction xs) (auto simp: fst_mono_pair)

lemma sort_keys_strict:
  assumes "distinct (map fst (d :: dict))"
  shows "sorted_wrt (<) (map fst (sort d))"
proof -
  have "sorted (map fst (sort d))" by (rule sorted_keys_of_sorted) simp
  moreover have "distinct (map fst (sort d))"
  proof -
    have "inj_on fst (set d)" using assms by (simp add: distinct_map)
    moreover have "distinct (sort d)" using assms by (simp add: distinct_map)
    ultimately show ?thesis by (simp add: distinct_map)
  qed
  ultimately show ?thesis by (simp add: strict_sorted_iff)
qed

lemma dict_eq_set:
  assumes a: "distinct (map fst a)" and b: "distinct (map fst b)" and e: "dict_eq a b"
  shows "set a = set b"
proof -
  have sub: "set a \<subseteq> set b"
    using e by (auto simp: dict_eq_def list_all_iff dest!: map_of_SomeD)
  have "card (set a) = card (set b)"
    using e distinct_keys_imp_distinct [OF a] distinct_keys_imp_distinct [OF b]
    by (simp add: dict_eq_def distinct_card)
  with sub show ?thesis by (simp add: card_subset_eq)
qed

lemma sort_unique:
  assumes "distinct (a :: dict)" "distinct b" "set a = set b"
  shows "sort a = sort b"
  by (rule sorted_distinct_set_unique) (simp_all add: assms)


text \<open>
  C6. \<open>to_string\<close> gives the prefix, a colon, and the tags in strictly ascending order
  of key, each tag after the first preceded by a semicolon and nothing after the last. A
  tag with value \<open>*\<close> is its key, with \<open>?\<close> and \<open>!\<close> it is \<open>key=?\<close> and \<open>key=!\<close>; any
  other value is written between double quotes, a backslash before each double quote and
  backslash and every other character unchanged, exactly when it has one of the characters
  semicolon, equals sign, double quote, backslash, space or an uppercase letter, and as it
  is otherwise. Two equal TaggedUrns, whatever the order their tags are stored in, give the
  same text.
\<close>

theorem to_string_canonical_form:
  assumes d: "distinct (map fst (tags u))"
  shows "(\<exists>ts. set ts = set (tags u) \<and> sorted_wrt (<) (map fst ts)
           \<and> to_string u = prefix u @ '':'' @
               (case map tag_str ts of [] \<Rightarrow> [] | x # xs \<Rightarrow> x @ concat (map (\<lambda>y. '';'' @ y) xs)))
    \<and> (\<forall>k v. tag_str (k, v) =
          (if v = ''*'' then k
           else if v = ''?'' then k @ ''=?''
           else if v = ''!'' then k @ ''=!''
           else if (\<exists>c \<in> set v. c \<in> {CHR '';'', CHR ''='', CHR 0x22, CHR 0x5C, CHR '' ''}
                      \<or> isupper c)
             then k @ ''='' @ [CHR 0x22]
               @ concat (map (\<lambda>c. if c = CHR 0x22 \<or> c = CHR 0x5C then [CHR 0x5C, c] else [c]) v)
               @ [CHR 0x22]
           else k @ ''='' @ v))
    \<and> (\<forall>u'. distinct (map fst (tags u')) \<and> urn_eq u' u \<longrightarrow> to_string u' = to_string u)"
proof (intro conjI allI impI)
  show "\<exists>ts. set ts = set (tags u) \<and> sorted_wrt (<) (map fst ts)
           \<and> to_string u = prefix u @ '':'' @
               (case map tag_str ts of [] \<Rightarrow> [] | x # xs \<Rightarrow> x @ concat (map (\<lambda>y. '';'' @ y) xs))"
  proof (intro exI [of _ "sort (tags u)"] conjI)
    show "set (sort (tags u)) = set (tags u)" by simp
    show "sorted_wrt (<) (map fst (sort (tags u)))" by (rule sort_keys_strict [OF d])
    show "to_string u = prefix u @ '':'' @
        (case map tag_str (sort (tags u)) of [] \<Rightarrow> []
         | x # xs \<Rightarrow> x @ concat (map (\<lambda>y. '';'' @ y) xs))"
      unfolding to_string_def tags_to_string_def
      by (subst join_alt) (rule refl)
  qed
next
  fix k v
  show "tag_str (k, v) =
          (if v = ''*'' then k
           else if v = ''?'' then k @ ''=?''
           else if v = ''!'' then k @ ''=!''
           else if (\<exists>c \<in> set v. c \<in> {CHR '';'', CHR ''='', CHR 0x22, CHR 0x5C, CHR '' ''}
                      \<or> isupper c)
             then k @ ''='' @ [CHR 0x22]
               @ concat (map (\<lambda>c. if c = CHR 0x22 \<or> c = CHR 0x5C then [CHR 0x5C, c] else [c]) v)
               @ [CHR 0x22]
           else k @ ''='' @ v)"
    unfolding tag_str_def quote_value_def quote_body_concat needs_quoting_iff by simp
next
  fix u'
  assume h: "distinct (map fst (tags u')) \<and> urn_eq u' u"
  then have "set (tags u') = set (tags u)"
    using dict_eq_set [OF _ d, of "tags u'"] by (simp add: urn_eq_def)
  then have "sort (tags u') = sort (tags u)"
    using h d by (intro sort_unique distinct_keys_imp_distinct) simp_all
  moreover have "prefix u' = prefix u" using h by (simp add: urn_eq_def)
  ultimately show "to_string u' = to_string u"
    by (simp add: to_string_def tags_to_string_def)
qed

theorem to_string_canonical_form_witness:
  "to_string \<lparr>prefix = ''cap'', tags = [(''op'', ''x''), (''k'', ''A b''), (''ext'', ''*'')]\<rparr>
     = ''cap:ext;k='' @ [CHR 0x22] @ ''A b'' @ [CHR 0x22] @ '';op=x''
   \<and> to_string \<lparr>prefix = ''cap'', tags = [(''ext'', ''*''), (''op'', ''x''), (''k'', ''A b'')]\<rparr>
     = to_string \<lparr>prefix = ''cap'', tags = [(''op'', ''x''), (''k'', ''A b''), (''ext'', ''*'')]\<rparr>"
proof -
  let ?u = "\<lparr>prefix = ''cap'', tags = [(''op'', ''x''), (''k'', ''A b''), (''ext'', ''*'')]\<rparr>"
  let ?u' = "\<lparr>prefix = ''cap'', tags = [(''ext'', ''*''), (''op'', ''x''), (''k'', ''A b'')]\<rparr>"
  have d: "distinct (map fst (tags ?u))" by simp
  have d': "distinct (map fst (tags ?u'))" by simp
  have e: "urn_eq ?u' ?u" by (simp add: urn_eq_def dict_eq_def)
  have v: "to_string ?u = ''cap:ext;k='' @ [CHR 0x22] @ ''A b'' @ [CHR 0x22] @ '';op=x''"
    by code_simp
  from to_string_canonical_form [OF d] have "\<forall>u'. distinct (map fst (tags u')) \<and> urn_eq u' ?u \<longrightarrow> to_string u' = to_string ?u"
    by (elim conjE)
  then have "to_string ?u' = to_string ?u" using d' e by blast
  with v show ?thesis by simp
qed

section \<open>The parser: characters and the loop\<close>































section \<open>The parser on a serialized tag\<close>









section \<open>Parsing a serialization\<close>

lemma keys_append: "keys (d @ e) = keys d \<union> keys e"
  by (auto simp: keys_def)


















text \<open>
  C1 at the text \<open>cap:k="a#b"\<close>: it parses, to the value \<open>a#b\<close> for the key \<open>k\<close>; the
  serialization does not quote this value, and the parser rejects the character \<open>#\<close> in
  an unquoted value.
\<close>

theorem round_trip_fails_on_unquoted_hash:
  "\<exists>u. from_string (''cap:k='' @ [CHR 0x22] @ ''a#b'' @ [CHR 0x22]) = Inr u
     \<and> tags u = [(''k'', ''a#b'')]
     \<and> to_string u = ''cap:k=a#b''
     \<and> from_string (to_string u) = Inl InvalidCharacterError"
proof -
  have 1: "from_string (''cap:k='' @ [CHR 0x22] @ ''a#b'' @ [CHR 0x22])
      = Inr \<lparr>prefix = ''cap'', tags = [(''k'', ''a#b'')]\<rparr>" by code_simp
  have 2: "to_string \<lparr>prefix = ''cap'', tags = [(''k'', ''a#b'')]\<rparr> = ''cap:k=a#b''" by code_simp
  have 3: "from_string ''cap:k=a#b'' = Inl InvalidCharacterError" by code_simp
  show ?thesis unfolding 1 using 2 3 by simp
qed

section \<open>The parser: what every step keeps true\<close>










section \<open>The parser: the errors\<close>



























end
